theory Spec2Isabelle
  imports Main "HOL-Library.Multiset" "HOL-Library.List_Lexorder" "HOL-Library.Char_ord"
begin

section \<open>Scopes, class brands and module classes (types.ts, modules.ts)\<close>

text \<open>
  \<^verbatim>\<open>export type Scope = "singleton" | "invoke" | "transient"\<close>
\<close>

datatype scope = SingletonScope | InvokeScope | TransientScope

text \<open>
  \<^verbatim>\<open>type Layer = "facade" | "service" | "repo" | "controller" | "other"\<close>
\<close>

datatype layer = facade | service | repo | controller | other

fun layer_string :: "layer \<Rightarrow> string" where
  "layer_string facade = ''facade''"
| "layer_string service = ''service''"
| "layer_string repo = ''repo''"
| "layer_string controller = ''controller''"
| "layer_string other = ''other''"

text \<open>
  \<^verbatim>\<open>class ClassBrand { constructor(readonly moduleName, readonly layerName) {} }\<close>
\<close>

record class_brand =
  moduleName :: string
  layerName :: layer

text \<open>
  A \<^verbatim>\<open>ModuleClass\<close> is a class object carrying the two static members \<^verbatim>\<open>[BRAND]\<close> and
  \<^verbatim>\<open>scope\<close>. A class is identified by reference in the source; the model gives every
  class a name that stands for that reference.
\<close>

record module_class =
  class_name :: string
  brand :: class_brand
  class_scope :: scope

text \<open>
  \<^verbatim>\<open>class K extends Base { static scope = ... }\<close>: a subclass inherits the static members of
  its base class through the prototype chain of the constructor, and may redeclare
  \<^verbatim>\<open>scope\<close>.
\<close>

definition extends_class :: "string \<Rightarrow> module_class \<Rightarrow> scope option \<Rightarrow> module_class" where
  "extends_class name base own_scope =
     \<lparr>class_name = name, brand = brand base,
      class_scope = (case own_scope of Some s \<Rightarrow> s | None \<Rightarrow> class_scope base)\<rparr>"

section \<open>Injection markers (dependencies.ts)\<close>

text \<open>\<^verbatim>\<open>PropertyKey = string | number | symbol\<close>\<close>

datatype property_key = KeyString string | KeyNumber int | KeySymbol string

text \<open>
  \<^verbatim>\<open>class UnresolvedDependency { constructor(readonly token, readonly scope, readonly unwrap?) {} }\<close>
\<close>

record 'c unresolved_dependency =
  token :: 'c
  scope :: scope
  unwrap :: "property_key option"

definition tokenizedDependency ::
  "'c \<Rightarrow> scope \<Rightarrow> property_key option \<Rightarrow> 'c unresolved_dependency" where
  "tokenizedDependency defaultClass sc unwrap_key =
     \<lparr>token = defaultClass, scope = sc, unwrap = unwrap_key\<rparr>"

text \<open>
  The values \<^verbatim>\<open>getInjectionPoint(v: unknown)\<close> can receive. An object is either a plain
  object (a property list), an instance of the module-private class
  \<^verbatim>\<open>UnresolvedDependency\<close>, or an instance of some other class.
\<close>

datatype 'c js_value =
    JSUndefined
  | JSNull
  | JSBoolean bool
  | JSNumber int
  | JSString string
  | JSClass 'c
  | JSPlainObject "(string \<times> 'c js_value) list"
  | JSInstance string "(string \<times> 'c js_value) list"
  | JSUnresolvedDependency "'c unresolved_dependency"

fun getInjectionPoint :: "'c js_value \<Rightarrow> 'c unresolved_dependency option" where
  "getInjectionPoint (JSUnresolvedDependency m) = Some m"
| "getInjectionPoint v = None"

text \<open>The JavaScript values of the members of a marker, for comparison with look-alikes.\<close>

fun scope_string :: "scope \<Rightarrow> string" where
  "scope_string SingletonScope = ''singleton''"
| "scope_string InvokeScope = ''invoke''"
| "scope_string TransientScope = ''transient''"

fun property_key_value :: "property_key option \<Rightarrow> 'c js_value" where
  "property_key_value None = JSUndefined"
| "property_key_value (Some (KeyString s)) = JSString s"
| "property_key_value (Some (KeyNumber n)) = JSNumber n"
| "property_key_value (Some (KeySymbol s)) = JSInstance ''Symbol'' [(''description'', JSString s)]"

definition marker_fields :: "'c unresolved_dependency \<Rightarrow> (string \<times> 'c js_value) list" where
  "marker_fields m =
     [(''token'', JSClass (token m)),
      (''scope'', JSString (scope_string (scope m))),
      (''unwrap'', property_key_value (unwrap m))]"

section \<open>Declaring a dependency: inject inside createModule (modules.ts)\<close>

datatype error = Error string

definition inject ::
  "string \<Rightarrow> module_class \<Rightarrow> scope option \<Rightarrow> error + module_class unresolved_dependency" where
  "inject module_name key sc =
     (if moduleName (brand key) \<noteq> module_name \<and> layerName (brand key) \<noteq> facade
      then Inl (Error (''Cross-module '' @ layer_string (layerName (brand key))
               @ '' dependency is not allowed.''
               @ '' Use a Facade.''
               @ '' (Tried to inject a '' @ layer_string (layerName (brand key))
               @ '' from '' @ moduleName (brand key) @ '' into '' @ module_name @ '')''))
      else Inr (tokenizedDependency key
                  (case sc of Some s \<Rightarrow> s | None \<Rightarrow> class_scope key) None))"

text \<open>The six role base classes returned by \<^verbatim>\<open>createModule(moduleName)\<close>.\<close>

record module =
  Facade :: module_class
  Service :: module_class
  Repo :: module_class
  Controller :: module_class
  Singleton :: module_class
  Class :: module_class

definition createModule :: "string \<Rightarrow> module" where
  "createModule module_name =
     \<lparr>Facade = \<lparr>class_name = ''Facade'',
                 brand = \<lparr>moduleName = module_name, layerName = facade\<rparr>,
                 class_scope = TransientScope\<rparr>,
      Service = \<lparr>class_name = ''Service'',
                  brand = \<lparr>moduleName = module_name, layerName = service\<rparr>,
                  class_scope = InvokeScope\<rparr>,
      Repo = \<lparr>class_name = ''Repo'',
               brand = \<lparr>moduleName = module_name, layerName = repo\<rparr>,
               class_scope = InvokeScope\<rparr>,
      Controller = \<lparr>class_name = ''Controller'',
                     brand = \<lparr>moduleName = module_name, layerName = controller\<rparr>,
                     class_scope = TransientScope\<rparr>,
      Singleton = \<lparr>class_name = ''Singleton'',
                    brand = \<lparr>moduleName = module_name, layerName = other\<rparr>,
                    class_scope = SingletonScope\<rparr>,
      Class = \<lparr>class_name = ''Class'',
                brand = \<lparr>moduleName = module_name, layerName = other\<rparr>,
                class_scope = TransientScope\<rparr>\<rparr>"

section \<open>Development-stable values (concerns/devstable.ts)\<close>

text \<open>
  \<^verbatim>\<open>process.env\<close>: a variable that is not set reads as undefined.
\<close>

type_synonym process_env = "string \<rightharpoonup> string"

definition VLA_DEV_STABLE_PREFIX :: string where
  "VLA_DEV_STABLE_PREFIX = ''__vla_dev_stable__''"

definition isDevStableEnabled :: "process_env \<Rightarrow> bool" where
  "isDevStableEnabled env =
     (if env ''VLA_DEV_STABLE'' = Some ''1'' then True
      else env ''NODE_ENV'' \<noteq> Some ''production'')"

text \<open>
  The state \<^verbatim>\<open>devStable\<close> and its initializer run in: the properties of
  \<^verbatim>\<open>globalThis\<close> and everything else the initializer can reach. An initializer
  \<^verbatim>\<open>init: () => T\<close> may change that state, and it either returns a value
  (\<open>Inr\<close>) or throws (\<open>Inl\<close>); \<^verbatim>\<open>devStable\<close> catches nothing, so what the
  initializer throws leaves \<^verbatim>\<open>devStable\<close> before the assignment to
  \<^verbatim>\<open>g[fullKey]\<close>.
\<close>

record ('v, 'w) runtime =
  globalThis :: "string \<rightharpoonup> 'v"
  heap :: 'w

type_synonym ('e, 'v, 'w) initializer = "('v, 'w) runtime \<Rightarrow> ('e + 'v) \<times> ('v, 'w) runtime"

definition devStable ::
  "process_env \<Rightarrow> string \<Rightarrow> ('e, 'v, 'w) initializer \<Rightarrow> ('v, 'w) runtime
     \<Rightarrow> ('e + 'v) \<times> ('v, 'w) runtime" where
  "devStable env key init rt =
     (if \<not> isDevStableEnabled env then init rt
      else
        let fullKey = VLA_DEV_STABLE_PREFIX @ key in
        (case globalThis rt fullKey of
           None \<Rightarrow>
             (case init rt of
                (Inl e, rt') \<Rightarrow> (Inl e, rt')
              | (Inr v, rt') \<Rightarrow> (Inr v, rt'\<lparr>globalThis := (globalThis rt')(fullKey \<mapsto> v)\<rparr>))
         | Some v \<Rightarrow> (Inr v, rt)))"

text \<open>
  Successive calls of \<^verbatim>\<open>devStable\<close> with one key, each with its own initializer; a
  caller that catches what a call throws goes on to the next call.
\<close>

fun devStable_calls ::
  "process_env \<Rightarrow> string \<Rightarrow> ('e, 'v, 'w) initializer list \<Rightarrow> ('v, 'w) runtime
     \<Rightarrow> ('e + 'v) list \<times> ('v, 'w) runtime" where
  "devStable_calls env key [] rt = ([], rt)"
| "devStable_calls env key (init # inits) rt =
     (let (r, rt') = devStable env key init rt;
          (rs, rt'') = devStable_calls env key inits rt'
      in (r # rs, rt''))"

text \<open>
  Two initializers that count their invocations, as a test double does: one returns the
  count, the other throws.
\<close>

definition counting_init :: "(string, nat, nat) initializer" where
  "counting_init rt = (Inr (heap rt), rt\<lparr>heap := Suc (heap rt)\<rparr>)"

definition failing_init :: "(string, nat, nat) initializer" where
  "failing_init rt = (Inl ''connection refused'', rt\<lparr>heap := Suc (heap rt)\<rparr>)"

section \<open>Containers (the Kernel class)\<close>

text \<open>
  The class \<^verbatim>\<open>Kernel\<close> is imported by kernel-invoke.ts, kernel-als.ts, kernel-current.ts
  and kernel-global.ts from \<^verbatim>\<open>./kernel\<close>. The definitions of this section give it the
  data model and the operations that the specification describes.
\<close>

text \<open>
  Modelled from the spec: a dependency identity of the missing Kernel class, a class-like
  descriptor compared by reference; the name stands for the reference.
\<close>

type_synonym token = string

text \<open>
  Modelled from the spec: the values a container hands out (the Kernel class is missing):
  a reference to a constructed instance, or fixed data registered as a value.
\<close>

datatype val = Obj nat | Data string

text \<open>
  Modelled from the spec: the producer of a binding of the missing Kernel class, "either
  an implementation descriptor to instantiate, or a concrete fixed value".
\<close>

datatype producer = Impl token | Fixed val

text \<open>
  Modelled from the spec: a binding of the missing Kernel class, a producer and an
  optional declared lifecycle.
\<close>

record binding =
  producer :: producer
  lifecycle :: "scope option"

text \<open>
  Modelled from the spec: the missing Kernel class. A container owns its own overrides,
  a call-scoped cache private to it, and a reference to the process-wide cache shared by
  every container derived from the same root.
\<close>

record kernel =
  parent :: "nat option"
  bindings :: "token \<rightharpoonup> binding"
  invokeCache :: "producer \<rightharpoonup> val"
  singletons :: nat

text \<open>
  Modelled from the spec: an instance constructed by the missing Kernel class, with its
  fields after the injection markers have been replaced.
\<close>

record constructed =
  instanceOf :: token
  fieldValues :: "(string \<times> val) list"

text \<open>
  Modelled from the spec: the object store the missing Kernel class works on. Containers,
  process-wide caches and instances are objects with identity: an address below the
  counter is allocated, and a new object takes the address of the counter.
\<close>

record store =
  kernels :: "nat \<Rightarrow> kernel"
  next_kernel :: nat
  caches :: "nat \<Rightarrow> (producer \<rightharpoonup> val)"
  next_cache :: nat
  objects :: "nat \<Rightarrow> constructed option"
  next_object :: nat

text \<open>
  Modelled from the spec: \<^verbatim>\<open>new Kernel()\<close> of the missing Kernel class, a root
  container with no binding, an empty call-scoped cache and a process-wide cache of its
  own, empty as well.
\<close>

definition new_Kernel :: "store \<Rightarrow> nat \<times> store" where
  "new_Kernel h =
     (next_kernel h,
      h\<lparr>kernels := (kernels h)(next_kernel h :=
            \<lparr>parent = None, bindings = Map.empty, invokeCache = Map.empty,
             singletons = next_cache h\<rparr>),
        next_kernel := Suc (next_kernel h),
        caches := (caches h)(next_cache h := Map.empty),
        next_cache := Suc (next_cache h)\<rparr>)"

text \<open>
  Modelled from the spec: \<^verbatim>\<open>scoped()\<close> of the missing Kernel class, which "derives a
  child container sharing the process-wide cache"; the child has its own overrides only and
  its "call-scoped cache is always empty at creation".
\<close>

definition scoped :: "nat \<Rightarrow> store \<Rightarrow> nat \<times> store" where
  "scoped p h =
     (next_kernel h,
      h\<lparr>kernels := (kernels h)(next_kernel h :=
            \<lparr>parent = Some p, bindings = Map.empty, invokeCache = Map.empty,
             singletons = singletons (kernels h p)\<rparr>),
        next_kernel := Suc (next_kernel h)\<rparr>)"

text \<open>
  Modelled from the spec: the object store before the missing Kernel class has allocated
  anything.
\<close>

definition init_store :: store where
  "init_store =
     \<lparr>kernels = (\<lambda>_. \<lparr>parent = None, bindings = Map.empty, invokeCache = Map.empty,
                       singletons = 0\<rparr>),
      next_kernel = 0,
      caches = (\<lambda>_. Map.empty),
      next_cache = 0,
      objects = (\<lambda>_. None),
      next_object = 0\<rparr>"

subsection \<open>Bindings and resolution\<close>





text \<open>
  Modelled from the spec: \<^verbatim>\<open>bindValue(identity, value, lifecycle = singleton)\<close> of the missing
  Kernel class "registers a fixed value as the producer".
\<close>

definition bindValue :: "nat \<Rightarrow> token \<Rightarrow> val \<Rightarrow> scope option \<Rightarrow> store \<Rightarrow> store" where
  "bindValue k identity v lc h =
     h\<lparr>kernels := (kernels h)(k := (kernels h k)
          \<lparr>bindings := (bindings (kernels h k))
             (identity \<mapsto> \<lparr>producer = Fixed v,
                lifecycle = Some (case lc of Some s \<Rightarrow> s | None \<Rightarrow> SingletonScope)\<rparr>)\<rparr>)\<rparr>"





text \<open>
  Modelled from the spec: the instantiation in construct of the missing Kernel class: a new object,
  at an address not used before.
\<close>

definition instantiate :: "token \<Rightarrow> store \<Rightarrow> nat \<times> store" where
  "instantiate T h =
     (next_object h,
      h\<lparr>objects := (objects h)(next_object h \<mapsto> \<lparr>instanceOf = T, fieldValues = []\<rparr>),
        next_object := Suc (next_object h)\<rparr>)"








text \<open>What resolution never changes of a container: its bindings and the cache it shares.\<close>

definition config :: "store \<Rightarrow> nat \<Rightarrow> (token \<rightharpoonup> binding) \<times> nat" where
  "config h k = (bindings (kernels h k), singletons (kernels h k))"

section \<open>Ambient container discovery (kernel-current.ts, kernel-als.ts, kernel-global.ts, kernel-invoke.ts)\<close>

text \<open>
  The module variables \<^verbatim>\<open>currentKernelFn\<close> and \<^verbatim>\<open>globalKernel\<close>, and the store of
  the \<^verbatim>\<open>AsyncLocalStorage\<close> instance \<^verbatim>\<open>als\<close> in the current asynchronous context.
  A \<^verbatim>\<open>CurrentKernelFn = () => Kernel\<close> returns a container and may allocate or
  configure containers on the way.
\<close>

record ambient =
  currentKernelFn :: "(store \<Rightarrow> nat \<times> store) option"
  alsStore :: "nat option"
  globalKernel :: "nat option"

definition setCurrentKernelFn :: "(store \<Rightarrow> nat \<times> store) \<Rightarrow> ambient \<Rightarrow> ambient" where
  "setCurrentKernelFn fnKernel a = a\<lparr>currentKernelFn := Some fnKernel\<rparr>"

definition getCurrentKernelFromFn :: "ambient \<Rightarrow> store \<Rightarrow> nat option \<times> store" where
  "getCurrentKernelFromFn a h =
     (case currentKernelFn a of
        None \<Rightarrow> (None, h)
      | Some fnKernel \<Rightarrow> (let (k, h') = fnKernel h in (Some k, h')))"

definition setGlobalKernel :: "nat \<Rightarrow> ambient \<Rightarrow> ambient" where
  "setGlobalKernel k a = a\<lparr>globalKernel := Some k\<rparr>"

definition getGlobalKernel :: "ambient \<Rightarrow> nat option" where
  "getGlobalKernel a = globalKernel a"

text \<open>
  \<^verbatim>\<open>als.run(scopedKernel, fn)\<close> runs \<^verbatim>\<open>fn\<close> in a context whose store is
  \<^verbatim>\<open>scopedKernel\<close>; the context of the caller keeps its own store.
\<close>

definition runWithKernel :: "nat \<Rightarrow> (ambient \<Rightarrow> store \<Rightarrow> 'r \<times> store) \<Rightarrow> ambient \<Rightarrow> store \<Rightarrow> 'r \<times> store" where
  "runWithKernel scopedKernel fn a h = fn (a\<lparr>alsStore := Some scopedKernel\<rparr>) h"

definition getAlsKernel :: "ambient \<Rightarrow> nat option" where
  "getAlsKernel a = alsStore a"

definition getInvokeKernel :: "ambient \<Rightarrow> store \<Rightarrow> nat \<times> store" where
  "getInvokeKernel a h =
     (case getCurrentKernelFromFn a h of
        (Some k, h') \<Rightarrow> (k, h')
      | (None, h') \<Rightarrow>
          (case getAlsKernel a of
             Some k \<Rightarrow> (k, h')
           | None \<Rightarrow>
               (case getGlobalKernel a of
                  Some g \<Rightarrow> scoped g h'
                | None \<Rightarrow> new_Kernel h')))"

section \<open>Memoization (concerns/memo)\<close>

text \<open>
  The module \<^verbatim>\<open>../concerns/memo\<close> is imported by factories/module.ts. The definitions of
  this section give its memoization engine the operations that the specification describes.
\<close>

text \<open>
  Modelled from the spec: how a pending result of the missing memoization engine
  (concerns/memo) settles: with a value, or with a failure.
\<close>

datatype 'v outcome = Fulfilled 'v | Rejected string

text \<open>
  Modelled from the spec: a memoized cache entry, "value-or-pending-result"; a pending result is
  known by its identity.
\<close>

datatype 'v result = Value 'v | Pending nat

text \<open>
  Modelled from the spec: what the wrapped function does when the missing memoization engine
  invokes it: it returns a value, or it returns a new pending result.
\<close>

datatype 'v returns = Returns 'v | ReturnsPending

text \<open>
  Modelled from the spec: the cache of one memoized function on one owning instance, argument
  key to entry, together with what a test observes of the run: the invocations of the
  wrapped function, and which pending results have settled and how.
\<close>

record ('k, 'a, 'v) memo =
  entries :: "'k \<rightharpoonup> 'v result"
  invocations :: "'a list"
  settled :: "nat \<rightharpoonup> 'v outcome"
  next_pending :: nat

text \<open>
  Modelled from the spec: a memoized function that has just been created by the missing memoization
  engine: no entry, no invocation.
\<close>

definition new_memo :: "('k, 'a, 'v) memo" where
  "new_memo = \<lparr>entries = Map.empty, invocations = [], settled = Map.empty, next_pending = 0\<rparr>"

text \<open>
  Modelled from the spec: one invocation of the wrapped function by the missing memoization engine.
\<close>

definition invoke :: "('a \<Rightarrow> 'v returns) \<Rightarrow> 'a \<Rightarrow> ('k, 'a, 'v) memo \<Rightarrow> 'v result \<times> ('k, 'a, 'v) memo" where
  "invoke fn args s =
     (case fn args of
        Returns v \<Rightarrow> (Value v, s\<lparr>invocations := invocations s @ [args]\<rparr>)
      | ReturnsPending \<Rightarrow>
          (Pending (next_pending s),
           s\<lparr>invocations := invocations s @ [args], next_pending := Suc (next_pending s)\<rparr>))"

text \<open>
  Modelled from the spec: the memoized call of the missing memoization engine, "compute argument
  key; if a live entry exists, return it (same pending result if still in flight); else
  invoke the wrapped function, store its result (or its pending promise) under the key
  immediately, before the function settles, then return it".
\<close>

definition memoized ::
  "('a \<Rightarrow> 'k) \<Rightarrow> ('a \<Rightarrow> 'v returns) \<Rightarrow> 'a \<Rightarrow> ('k, 'a, 'v) memo \<Rightarrow> 'v result \<times> ('k, 'a, 'v) memo" where
  "memoized key fn args s =
     (case entries s (key args) of
        Some e \<Rightarrow> (e, s)
      | None \<Rightarrow>
          (let (r, s') = invoke fn args s
           in (r, s'\<lparr>entries := (entries s')(key args \<mapsto> r)\<rparr>)))"

text \<open>
  Modelled from the spec: \<^verbatim>\<open>fresh\<close> of the missing memoization engine, "always invoke the wrapped
  function, ignoring any existing entry, and overwrite the entry with the new result".
\<close>

definition fresh ::
  "('a \<Rightarrow> 'k) \<Rightarrow> ('a \<Rightarrow> 'v returns) \<Rightarrow> 'a \<Rightarrow> ('k, 'a, 'v) memo \<Rightarrow> 'v result \<times> ('k, 'a, 'v) memo" where
  "fresh key fn args s =
     (let (r, s') = invoke fn args s
      in (r, s'\<lparr>entries := (entries s')(key args \<mapsto> r)\<rparr>))"

text \<open>
  Modelled from the spec: \<^verbatim>\<open>prime(args).value(v)\<close> of the missing memoization engine, "set the
  entry for the key of args to v without invoking the function".
\<close>

definition prime_value ::
  "('a \<Rightarrow> 'k) \<Rightarrow> 'a \<Rightarrow> 'v result \<Rightarrow> ('k, 'a, 'v) memo \<Rightarrow> ('k, 'a, 'v) memo" where
  "prime_value key args v s = s\<lparr>entries := (entries s)(key args \<mapsto> v)\<rparr>"

text \<open>
  Modelled from the spec: \<^verbatim>\<open>preload\<close> of the missing memoization engine, "identical to the
  memoized call but the result is intentionally not awaited by the caller".
\<close>

definition preload ::
  "('a \<Rightarrow> 'k) \<Rightarrow> ('a \<Rightarrow> 'v returns) \<Rightarrow> 'a \<Rightarrow> ('k, 'a, 'v) memo \<Rightarrow> ('k, 'a, 'v) memo" where
  "preload key fn args s = snd (memoized key fn args s)"

text \<open>
  Modelled from the spec: \<^verbatim>\<open>bust(args)\<close> of the missing memoization engine, "remove exactly the entry
  for that key, if present; no-op otherwise".
\<close>

definition bust :: "('a \<Rightarrow> 'k) \<Rightarrow> 'a \<Rightarrow> ('k, 'a, 'v) memo \<Rightarrow> ('k, 'a, 'v) memo" where
  "bust key args s = s\<lparr>entries := (entries s)(key args := None)\<rparr>"

text \<open>
  Modelled from the spec: \<^verbatim>\<open>bustAll\<close> of the missing memoization engine, "remove every entry for
  this function on this instance".
\<close>

definition bustAll :: "('k, 'a, 'v) memo \<Rightarrow> ('k, 'a, 'v) memo" where
  "bustAll s = s\<lparr>entries := Map.empty\<rparr>"

text \<open>
  Modelled from the spec: a pending result made outside the wrapped function, to prime an entry of
  the missing memoization engine with.
\<close>

definition new_pending :: "('k, 'a, 'v) memo \<Rightarrow> nat \<times> ('k, 'a, 'v) memo" where
  "new_pending s = (next_pending s, s\<lparr>next_pending := Suc (next_pending s)\<rparr>)"

text \<open>
  Modelled from the spec: a pending result settles, once. For the missing memoization engine, "a
  rejected/failed pending result removes its own entry": the entries that hold this pending
  result are removed when it fails, and nothing is removed when it succeeds.
\<close>

definition settle :: "nat \<Rightarrow> 'v outcome \<Rightarrow> ('k, 'a, 'v) memo \<Rightarrow> ('k, 'a, 'v) memo" where
  "settle p out s =
     (if p < next_pending s \<and> settled s p = None then
        (case out of
           Fulfilled v \<Rightarrow> s\<lparr>settled := (settled s)(p \<mapsto> out)\<rparr>
         | Rejected e \<Rightarrow>
             s\<lparr>settled := (settled s)(p \<mapsto> out),
               entries := (\<lambda>k. if entries s k = Some (Pending p) then None else entries s k)\<rparr>)
      else s)"

text \<open>
  Modelled from the spec: what the holder of a result of the missing memoization engine sees of it:
  the value, the way the pending result has settled, or nothing yet.
\<close>

definition observed :: "('k, 'a, 'v) memo \<Rightarrow> 'v result \<Rightarrow> 'v outcome option" where
  "observed s r = (case r of Value v \<Rightarrow> Some (Fulfilled v) | Pending p \<Rightarrow> settled s p)"

subsection \<open>Argument keys\<close>

text \<open>
  Modelled from the spec: the scalar values an argument of a memoized function of the missing
  memoization engine can be.
\<close>

datatype scalar = Undefined | Null | Boolean bool | Number int | String string

text \<open>
  Modelled from the spec: an argument of a memoized function: a scalar, a list, or a structured
  (keyed) value, whose properties have an order and distinct names.
\<close>

datatype arg = Scalar scalar | Listed "arg list" | Keyed "(string \<times> arg) list"

text \<open>
  Modelled from the spec: the "deterministic, order-independent serialization" of the missing
  memoization engine, taken as the canonical form that is serialized: the properties of
  every keyed value in the order of their names.
\<close>

fun canonical :: "arg \<Rightarrow> arg" where
  "canonical (Scalar x) = Scalar x"
| "canonical (Listed xs) = Listed (map canonical xs)"
| "canonical (Keyed ps) = Keyed (sort_key fst (map (\<lambda>(k, v). (k, canonical v)) ps))"

text \<open>
  Modelled from the spec: an argument key of the missing memoization engine: the own value of a
  single scalar argument, or the serialization of the arguments.
\<close>

datatype arg_key = OwnValue scalar | Serialized "arg list"

text \<open>
  Modelled from the spec: the argument-key derivation of the missing memoization engine, "stable
  and order-independent for structured (keyed) arguments"; "single scalar arguments use
  their own value as the key".
\<close>

fun argKey :: "arg list \<Rightarrow> arg_key" where
  "argKey [Scalar x] = OwnValue x"
| "argKey args = Serialized (map canonical args)"

text \<open>
  Modelled from the spec: the keyed values a program can build: the names of the properties of one
  object are distinct.
\<close>

fun well_formed :: "arg \<Rightarrow> bool" where
  "well_formed (Scalar x) = True"
| "well_formed (Listed xs) = list_all well_formed xs"
| "well_formed (Keyed ps) = (distinct (map fst ps) \<and> list_all (\<lambda>(k, v). well_formed v) ps)"

text \<open>
  Modelled from the spec: two arguments are the same value up to the order of the properties of
  the keyed values in them.
\<close>

inductive reordered :: "arg \<Rightarrow> arg \<Rightarrow> bool" where
  same_scalar: "reordered (Scalar x) (Scalar x)"
| listed: "list_all2 reordered xs ys \<Longrightarrow> reordered (Listed xs) (Listed ys)"
| keyed: "list_all2 (\<lambda>p q. fst p = fst q \<and> reordered (snd p) (snd q)) ps qs' \<Longrightarrow>
          mset qs' = mset qs \<Longrightarrow> reordered (Keyed ps) (Keyed qs)"
text \<open>The canonical form of one property of a keyed value.\<close>

definition canonical_property :: "string \<times> arg \<Rightarrow> string \<times> arg" where
  "canonical_property p = (fst p, canonical (snd p))"

section \<open>Properties of injection markers and of inject\<close>

lemma tokenizedDependency_surj: "\<exists>c s u. x = tokenizedDependency c s u"
  by (cases x) (auto simp add: tokenizedDependency_def)

text \<open>
  Claim C2, as stated, says that inject never throws at runtime on account of the brand of
  the injected key. The source has an explicit runtime guard, so the claim fails: a service
  of module Users injected into module Posts makes inject throw.
\<close>

theorem inject_cross_module_service_throws:
  "inject ''Posts'' (extends_class ''UserService'' (Service (createModule ''Users'')) None) None
     = Inl (Error (''Cross-module service dependency is not allowed. Use a Facade.''
                   @ '' (Tried to inject a service from Users into Posts)''))"
  by (simp add: inject_def extends_class_def createModule_def)

text \<open>
  Claim C2, amended: inject checks the role-tag boundary at runtime. It throws exactly
  when the brand of the key names another module and a layer other than facade, the
  error message names the layer and both modules, and for every other key (same module,
  or a facade of any module) inject does not throw.
\<close>

theorem inject_runtime_guard:
  "(moduleName (brand key) \<noteq> m \<and> layerName (brand key) \<noteq> facade \<longrightarrow>
      inject m key sc =
        Inl (Error (''Cross-module '' @ layer_string (layerName (brand key))
               @ '' dependency is not allowed. Use a Facade. (Tried to inject a ''
               @ layer_string (layerName (brand key))
               @ '' from '' @ moduleName (brand key) @ '' into '' @ m @ '')'')))
   \<and> (moduleName (brand key) = m \<or> layerName (brand key) = facade \<longrightarrow>
      \<not> isl (inject m key sc))"
  by (auto simp add: inject_def)

theorem inject_runtime_guard_witness:
  "inject ''Posts'' (Repo (createModule ''Users'')) None =
     Inl (Error ''Cross-module repo dependency is not allowed. Use a Facade. (Tried to inject a repo from Users into Posts)'')
   \<and> \<not> isl (inject ''Posts'' (Facade (createModule ''Users'')) None)
   \<and> \<not> isl (inject ''Users'' (Repo (createModule ''Users'')) None)"
  using inject_runtime_guard [of "Repo (createModule ''Users'')" "''Posts''" None]
        inject_runtime_guard [of "Facade (createModule ''Users'')" "''Posts''" None]
        inject_runtime_guard [of "Repo (createModule ''Users'')" "''Users''" None]
  by (simp add: createModule_def)

text \<open>
  Claim C3, as stated, says that inject returns a marker for every key. For a key of
  another module that is not a facade inject returns no marker: the marker the claim
  describes is not the result.
\<close>

theorem inject_cross_module_repo_no_marker:
  "inject ''Billing'' (extends_class ''UserRepo'' (Repo (createModule ''Users'')) None)
       (Some TransientScope)
     \<noteq> Inr (tokenizedDependency
              (extends_class ''UserRepo'' (Repo (createModule ''Users'')) None)
              TransientScope None)"
  by (simp add: inject_def extends_class_def createModule_def)

text \<open>
  Claim C3, amended: tokenizedDependency returns, for every class, scope and optional
  unwrap key, a marker carrying exactly the class itself, that scope and that unwrap key.
  inject returns, for every key of the injecting module and for every facade, the marker
  of tokenizedDependency carrying the key itself, the explicit scope when one is given and
  otherwise the scope the key declares, and no unwrap key. Both are functions of their
  arguments alone: they read and change no container, cache or instance.
\<close>

theorem inject_returns_marker:
  "tokenizedDependency key s u = \<lparr>token = key, scope = s, unwrap = u\<rparr>
   \<and> (moduleName (brand key) = m \<or> layerName (brand key) = facade \<longrightarrow>
        inject m key sc =
          Inr \<lparr>token = key,
               scope = (case sc of Some s' \<Rightarrow> s' | None \<Rightarrow> class_scope key),
               unwrap = None\<rparr>)"
  by (auto simp add: inject_def tokenizedDependency_def)

theorem inject_returns_marker_witness:
  "inject ''Users'' (extends_class ''UserRepo'' (Repo (createModule ''Users'')) None)
       (Some SingletonScope)
     = Inr \<lparr>token = extends_class ''UserRepo'' (Repo (createModule ''Users'')) None,
            scope = SingletonScope, unwrap = None\<rparr>
   \<and> inject ''Posts'' (extends_class ''UserFacade'' (Facade (createModule ''Users'')) None) None
     = Inr \<lparr>token = extends_class ''UserFacade'' (Facade (createModule ''Users'')) None,
            scope = TransientScope, unwrap = None\<rparr>"
  using inject_returns_marker
          [of "extends_class ''UserRepo'' (Repo (createModule ''Users'')) None" _ _
              "''Users''" "Some SingletonScope"]
        inject_returns_marker
          [of "extends_class ''UserFacade'' (Facade (createModule ''Users'')) None" _ _
              "''Posts''" None]
  by (simp add: extends_class_def createModule_def)

text \<open>
  Claim C8: getInjectionPoint returns the value itself exactly for the instances of the
  class UnresolvedDependency, which are the markers made by tokenizedDependency, and null
  for every other value. A plain object, or an instance of another class, with the same
  members token, scope and unwrap as a marker is answered with null.
\<close>

theorem getInjectionPoint_tagged_only:
  "getInjectionPoint (JSUnresolvedDependency (tokenizedDependency c s u))
     = Some (tokenizedDependency c s u)
   \<and> (getInjectionPoint v = Some mk) = (v = JSUnresolvedDependency mk)
   \<and> (getInjectionPoint v = None)
       = (\<nexists>c s u. v = JSUnresolvedDependency (tokenizedDependency c s u))
   \<and> getInjectionPoint (JSPlainObject (marker_fields mk)) = None
   \<and> getInjectionPoint (JSInstance n (marker_fields mk)) = None"
proof -
  have "(getInjectionPoint v = Some mk) = (v = JSUnresolvedDependency mk)"
    by (cases v) auto
  moreover have "(getInjectionPoint v = None)
       = (\<nexists>c s u. v = JSUnresolvedDependency (tokenizedDependency c s u))"
    by (cases v) (simp_all add: tokenizedDependency_surj)
  ultimately show ?thesis by simp
qed

text \<open>
  Claim C10: the role base classes of every module declare the default scopes
  transient (Facade, Controller, Class), invoke (Service, Repo) and singleton (Singleton),
  and an inject without a scope argument, of a role class or of a class extending it
  without a scope of its own, gives a marker with that scope.
\<close>

theorem createModule_default_scopes:
  "class_scope (Facade (createModule m)) = TransientScope
   \<and> class_scope (Controller (createModule m)) = TransientScope
   \<and> class_scope (Class (createModule m)) = TransientScope
   \<and> class_scope (Service (createModule m)) = InvokeScope
   \<and> class_scope (Repo (createModule m)) = InvokeScope
   \<and> class_scope (Singleton (createModule m)) = SingletonScope
   \<and> map_sum id scope (inject m (extends_class n (Facade (createModule m)) None) None)
       = Inr TransientScope
   \<and> map_sum id scope (inject m (extends_class n (Controller (createModule m)) None) None)
       = Inr TransientScope
   \<and> map_sum id scope (inject m (extends_class n (Class (createModule m)) None) None)
       = Inr TransientScope
   \<and> map_sum id scope (inject m (extends_class n (Service (createModule m)) None) None)
       = Inr InvokeScope
   \<and> map_sum id scope (inject m (extends_class n (Repo (createModule m)) None) None)
       = Inr InvokeScope
   \<and> map_sum id scope (inject m (extends_class n (Singleton (createModule m)) None) None)
       = Inr SingletonScope
   \<and> map_sum id scope (inject m' (extends_class n (Facade (createModule m)) None) None)
       = Inr TransientScope"
  by (simp add: createModule_def extends_class_def inject_def tokenizedDependency_def)

section \<open>Properties of devStable\<close>

lemma devStable_stored:
  "isDevStableEnabled env \<Longrightarrow> globalThis rt (VLA_DEV_STABLE_PREFIX @ key) = Some v \<Longrightarrow>
   devStable env key init rt = (Inr v, rt)"
  by (simp add: devStable_def)

lemma devStable_calls_stored:
  "isDevStableEnabled env \<Longrightarrow> globalThis rt (VLA_DEV_STABLE_PREFIX @ key) = Some v \<Longrightarrow>
   devStable_calls env key inits rt = (replicate (length inits) (Inr v), rt)"
  by (induction inits) (simp_all add: devStable_stored)

lemma devStable_returned_stored:
  assumes "isDevStableEnabled env" and "devStable env key init rt = (Inr v, rt1)"
  shows "globalThis rt1 (VLA_DEV_STABLE_PREFIX @ key) = Some v"
proof (cases "globalThis rt (VLA_DEV_STABLE_PREFIX @ key)")
  case None
  obtain r rt' where i: "init rt = (r, rt')" by (cases "init rt")
  with assms None show ?thesis
    by (cases r) (auto simp add: devStable_def)
next
  case (Some w)
  with assms show ?thesis by (simp add: devStable_def)
qed

text \<open>
  Claim C9, as stated, says that with dev-stability enabled the initializer is invoked at
  most once per key. An initializer that throws stores nothing, so the next call with the
  same key invokes its initializer again: two calls with the key "db" and a throwing
  initializer are two invocations (the counter goes from 0 to 2), and no property of
  globalThis is set.
\<close>

theorem devStable_throwing_init_invoked_again:
  "isDevStableEnabled [''NODE_ENV'' \<mapsto> ''development'']
   \<and> devStable_calls [''NODE_ENV'' \<mapsto> ''development''] ''db''
        [failing_init, failing_init] \<lparr>globalThis = Map.empty, heap = 0\<rparr>
      = ([Inl ''connection refused'', Inl ''connection refused''],
         \<lparr>globalThis = Map.empty, heap = 2\<rparr>)"
  by (simp add: isDevStableEnabled_def devStable_def failing_init_def
        VLA_DEV_STABLE_PREFIX_def)

text \<open>
  Claim C9, amended: dev-stability is enabled exactly when VLA_DEV_STABLE is "1" or
  NODE_ENV is not "production". When it is enabled, a call whose key has a property
  "__vla_dev_stable__" + key on globalThis returns the stored value and invokes nothing;
  a call whose key has none invokes its initializer once, and either the initializer
  returns and its result is stored under that property and returned, or it throws, what it
  throws is propagated and devStable stores nothing, so that the next call with the key
  invokes its initializer again. Once a call has returned a value, every later call with
  the same key returns that identical value without invoking an initializer and without
  changing the state: at most one initializer per key returns. When dev-stability is
  disabled, a call is exactly one invocation of the initializer: globalThis is neither read
  nor written by devStable.
\<close>

theorem devStable_once_returned:
  "(isDevStableEnabled env
      \<longleftrightarrow> env ''VLA_DEV_STABLE'' = Some ''1'' \<or> env ''NODE_ENV'' \<noteq> Some ''production'')
   \<and> (isDevStableEnabled env \<longrightarrow>
        devStable env key init rt =
          (case globalThis rt (''__vla_dev_stable__'' @ key) of
             Some v \<Rightarrow> (Inr v, rt)
           | None \<Rightarrow>
               (case init rt of
                  (Inl e, rt') \<Rightarrow> (Inl e, rt')
                | (Inr v, rt') \<Rightarrow>
                    (Inr v, rt'\<lparr>globalThis :=
                       (globalThis rt')(''__vla_dev_stable__'' @ key \<mapsto> v)\<rparr>))))
   \<and> (isDevStableEnabled env \<and> devStable env key init rt = (Inr v, rta) \<longrightarrow>
        globalThis rta (''__vla_dev_stable__'' @ key) = Some v
        \<and> devStable_calls env key inits rta = (replicate (length inits) (Inr v), rta))
   \<and> (\<not> isDevStableEnabled env \<longrightarrow> devStable env key init rt = init rt)"
proof (intro conjI impI)
  show "isDevStableEnabled env
      \<longleftrightarrow> env ''VLA_DEV_STABLE'' = Some ''1'' \<or> env ''NODE_ENV'' \<noteq> Some ''production''"
    by (simp add: isDevStableEnabled_def)
next
  assume en: "isDevStableEnabled env"
  then show "devStable env key init rt =
          (case globalThis rt (''__vla_dev_stable__'' @ key) of
             Some v \<Rightarrow> (Inr v, rt)
           | None \<Rightarrow>
               (case init rt of
                  (Inl e, rt') \<Rightarrow> (Inl e, rt')
                | (Inr v, rt') \<Rightarrow>
                    (Inr v, rt'\<lparr>globalThis :=
                       (globalThis rt')(''__vla_dev_stable__'' @ key \<mapsto> v)\<rparr>)))"
    by (simp add: devStable_def VLA_DEV_STABLE_PREFIX_def Let_def
          split: option.splits prod.splits sum.splits)
next
  assume a: "isDevStableEnabled env \<and> devStable env key init rt = (Inr v, rta)"
  have pre: "''__vla_dev_stable__'' @ key = VLA_DEV_STABLE_PREFIX @ key"
    by (simp add: VLA_DEV_STABLE_PREFIX_def)
  from a have en: "isDevStableEnabled env"
    and call: "devStable env key init rt = (Inr v, rta)" by simp_all
  have st: "globalThis rta (VLA_DEV_STABLE_PREFIX @ key) = Some v"
    using en call by (rule devStable_returned_stored)
  then show "globalThis rta (''__vla_dev_stable__'' @ key) = Some v"
    by (simp only: pre)
  from a st show "devStable_calls env key inits rta = (replicate (length inits) (Inr v), rta)"
    by (simp add: devStable_calls_stored)
next
  assume "\<not> isDevStableEnabled env"
  then show "devStable env key init rt = init rt"
    by (simp add: devStable_def)
qed

theorem devStable_once_returned_witness:
  "isDevStableEnabled [''NODE_ENV'' \<mapsto> ''development'']
   \<and> devStable_calls [''NODE_ENV'' \<mapsto> ''development''] ''db''
        [failing_init, counting_init, counting_init, failing_init]
        \<lparr>globalThis = Map.empty, heap = 0\<rparr>
      = ([Inl ''connection refused'', Inr 1, Inr 1, Inr 1],
         \<lparr>globalThis = [''__vla_dev_stable__db'' \<mapsto> 1], heap = 2\<rparr>)
   \<and> \<not> isDevStableEnabled [''NODE_ENV'' \<mapsto> ''production'']
   \<and> devStable [''NODE_ENV'' \<mapsto> ''production''] ''db'' counting_init
        \<lparr>globalThis = Map.empty, heap = 5\<rparr>
      = (Inr 5, \<lparr>globalThis = Map.empty, heap = 6\<rparr>)"
  using devStable_once_returned
          [where env = "[''NODE_ENV'' \<mapsto> ''development'']" and key = "''db''"
             and init = counting_init and rt = "\<lparr>globalThis = Map.empty, heap = 1\<rparr>"
             and v = 1 and rta = "\<lparr>globalThis = [''__vla_dev_stable__db'' \<mapsto> 1], heap = 2\<rparr>"
             and inits = "[counting_init, failing_init]"]
        devStable_once_returned
          [where env = "[''NODE_ENV'' \<mapsto> ''production'']" and key = "''db''"
             and init = counting_init and rt = "\<lparr>globalThis = Map.empty, heap = 5\<rparr>"
             and v = 5 and rta = "\<lparr>globalThis = Map.empty, heap = 6\<rparr>"
             and inits = "[]"]
  by (simp add: isDevStableEnabled_def devStable_def counting_init_def failing_init_def
        VLA_DEV_STABLE_PREFIX_def)

section \<open>Properties of ambient container discovery\<close>

lemma getInvokeKernel_fn:
  "currentKernelFn a = Some f \<Longrightarrow> getInvokeKernel a h = f h"
  by (simp add: getInvokeKernel_def getCurrentKernelFromFn_def split: prod.splits)

lemma getInvokeKernel_als:
  "currentKernelFn a = None \<Longrightarrow> alsStore a = Some k \<Longrightarrow> getInvokeKernel a h = (k, h)"
  by (simp add: getInvokeKernel_def getCurrentKernelFromFn_def getAlsKernel_def)

lemma getInvokeKernel_global:
  "currentKernelFn a = None \<Longrightarrow> alsStore a = None \<Longrightarrow> globalKernel a = Some g \<Longrightarrow>
   getInvokeKernel a h = scoped g h"
  by (simp add: getInvokeKernel_def getCurrentKernelFromFn_def getAlsKernel_def
        getGlobalKernel_def)

lemma getInvokeKernel_new:
  "currentKernelFn a = None \<Longrightarrow> alsStore a = None \<Longrightarrow> globalKernel a = None \<Longrightarrow>
   getInvokeKernel a h = new_Kernel h"
  by (simp add: getInvokeKernel_def getCurrentKernelFromFn_def getAlsKernel_def
        getGlobalKernel_def)

lemma scoped_child:
  "fst (scoped g h) = next_kernel h"
  "next_kernel (snd (scoped g h)) = Suc (next_kernel h)"
  "kernels (snd (scoped g h)) (next_kernel h) =
     \<lparr>parent = Some g, bindings = Map.empty, invokeCache = Map.empty,
      singletons = singletons (kernels h g)\<rparr>"
  "k \<noteq> next_kernel h \<Longrightarrow> kernels (snd (scoped g h)) k = kernels h k"
  "caches (snd (scoped g h)) = caches h"
  "objects (snd (scoped g h)) = objects h"
  by (simp_all add: scoped_def)

lemma new_Kernel_root:
  "fst (new_Kernel h) = next_kernel h"
  "next_kernel (snd (new_Kernel h)) = Suc (next_kernel h)"
  "kernels (snd (new_Kernel h)) (next_kernel h) =
     \<lparr>parent = None, bindings = Map.empty, invokeCache = Map.empty,
      singletons = next_cache h\<rparr>"
  "k \<noteq> next_kernel h \<Longrightarrow> kernels (snd (new_Kernel h)) k = kernels h k"
  "caches (snd (new_Kernel h)) (next_cache h) = Map.empty"
  "objects (snd (new_Kernel h)) = objects h"
  by (simp_all add: new_Kernel_def)

text \<open>
  Claim C1: getInvokeKernel finds the container by a fixed precedence, evaluated on every
  call. If a current-kernel function is set, the result is the result of calling it, and
  nothing else is evaluated. Else, if the asynchronous context has a kernel in its store
  (as inside runWithKernel), that kernel is returned and no container is created. Else, if
  a global kernel is registered, the result is a new scoped() child of it: an address that
  was not allocated before, so not the global kernel itself, with the global kernel as
  parent, sharing its process-wide cache, with no binding and an empty call-scoped cache;
  the next call makes another child. Else the result is a new root Kernel with no
  binding and empty caches. The module variables are only read.
\<close>

theorem getInvokeKernel_precedence:
  "(currentKernelFn a = Some f \<longrightarrow> getInvokeKernel a h = f h)
   \<and> (currentKernelFn a = None \<and> alsStore a = Some k \<longrightarrow>
        getInvokeKernel a h = (k, h)
        \<and> runWithKernel k getInvokeKernel (a\<lparr>alsStore := None\<rparr>) h = (k, h))
   \<and> (currentKernelFn a = None \<and> alsStore a = None \<and> globalKernel a = Some g \<longrightarrow>
        getInvokeKernel a h = scoped g h
        \<and> fst (getInvokeKernel a h) = next_kernel h
        \<and> (g < next_kernel h \<longrightarrow> fst (getInvokeKernel a h) \<noteq> g)
        \<and> kernels (snd (getInvokeKernel a h)) (fst (getInvokeKernel a h)) =
             \<lparr>parent = Some g, bindings = Map.empty, invokeCache = Map.empty,
              singletons = singletons (kernels h g)\<rparr>
        \<and> (\<forall>k'. k' < next_kernel h \<longrightarrow> kernels (snd (getInvokeKernel a h)) k' = kernels h k')
        \<and> fst (getInvokeKernel a (snd (getInvokeKernel a h))) \<noteq> fst (getInvokeKernel a h))
   \<and> (currentKernelFn a = None \<and> alsStore a = None \<and> globalKernel a = None \<longrightarrow>
        getInvokeKernel a h = new_Kernel h
        \<and> fst (getInvokeKernel a h) = next_kernel h
        \<and> kernels (snd (getInvokeKernel a h)) (fst (getInvokeKernel a h)) =
             \<lparr>parent = None, bindings = Map.empty, invokeCache = Map.empty,
              singletons = next_cache h\<rparr>
        \<and> caches (snd (getInvokeKernel a h)) (next_cache h) = Map.empty
        \<and> (\<forall>k'. k' < next_kernel h \<longrightarrow> kernels (snd (getInvokeKernel a h)) k' = kernels h k'))"
proof (intro conjI impI)
  assume "currentKernelFn a = Some f"
  then show "getInvokeKernel a h = f h" by (rule getInvokeKernel_fn)
next
  assume c: "currentKernelFn a = None \<and> alsStore a = Some k"
  then show "getInvokeKernel a h = (k, h)" by (simp add: getInvokeKernel_als)
  from c show "runWithKernel k getInvokeKernel (a\<lparr>alsStore := None\<rparr>) h = (k, h)"
    by (simp add: runWithKernel_def getInvokeKernel_als)
next
  assume c: "currentKernelFn a = None \<and> alsStore a = None \<and> globalKernel a = Some g"
  then have eq: "getInvokeKernel a h' = scoped g h'" for h'
    by (simp add: getInvokeKernel_global)
  show "getInvokeKernel a h = scoped g h" by (rule eq)
  show "fst (getInvokeKernel a h) = next_kernel h" by (simp add: eq scoped_child)
  show "fst (getInvokeKernel a h) \<noteq> g" if "g < next_kernel h"
    using that by (simp add: eq scoped_child)
  show "kernels (snd (getInvokeKernel a h)) (fst (getInvokeKernel a h)) =
             \<lparr>parent = Some g, bindings = Map.empty, invokeCache = Map.empty,
              singletons = singletons (kernels h g)\<rparr>"
    by (simp add: eq scoped_child)
  show "\<forall>k'. k' < next_kernel h \<longrightarrow> kernels (snd (getInvokeKernel a h)) k' = kernels h k'"
    by (simp add: eq scoped_child)
  show "fst (getInvokeKernel a (snd (getInvokeKernel a h))) \<noteq> fst (getInvokeKernel a h)"
    by (simp add: eq scoped_child)
next
  assume c: "currentKernelFn a = None \<and> alsStore a = None \<and> globalKernel a = None"
  then have eq: "getInvokeKernel a h = new_Kernel h"
    by (simp add: getInvokeKernel_new)
  show "getInvokeKernel a h = new_Kernel h" by (rule eq)
  show "fst (getInvokeKernel a h) = next_kernel h" by (simp add: eq new_Kernel_root)
  show "kernels (snd (getInvokeKernel a h)) (fst (getInvokeKernel a h)) =
             \<lparr>parent = None, bindings = Map.empty, invokeCache = Map.empty,
              singletons = next_cache h\<rparr>"
    by (simp add: eq new_Kernel_root)
  show "caches (snd (getInvokeKernel a h)) (next_cache h) = Map.empty"
    by (simp add: eq new_Kernel_root)
  show "\<forall>k'. k' < next_kernel h \<longrightarrow> kernels (snd (getInvokeKernel a h)) k' = kernels h k'"
    by (simp add: eq new_Kernel_root)
qed

theorem getInvokeKernel_precedence_witness:
  "getInvokeKernel \<lparr>currentKernelFn = Some new_Kernel, alsStore = Some 0, globalKernel = Some 0\<rparr>
       (snd (new_Kernel init_store))
     = new_Kernel (snd (new_Kernel init_store))
   \<and> getInvokeKernel \<lparr>currentKernelFn = None, alsStore = Some 0, globalKernel = Some 0\<rparr>
       (snd (new_Kernel init_store))
     = (0, snd (new_Kernel init_store))
   \<and> fst (getInvokeKernel \<lparr>currentKernelFn = None, alsStore = None, globalKernel = Some 0\<rparr>
       (snd (new_Kernel init_store))) = 1
   \<and> parent (kernels
        (snd (getInvokeKernel \<lparr>currentKernelFn = None, alsStore = None, globalKernel = Some 0\<rparr>
           (snd (new_Kernel init_store)))) 1) = Some 0
   \<and> fst (getInvokeKernel \<lparr>currentKernelFn = None, alsStore = None, globalKernel = None\<rparr>
       (snd (new_Kernel init_store))) = 1
   \<and> parent (kernels
        (snd (getInvokeKernel \<lparr>currentKernelFn = None, alsStore = None, globalKernel = None\<rparr>
           (snd (new_Kernel init_store)))) 1) = None"
  using getInvokeKernel_precedence
          [of "\<lparr>currentKernelFn = Some new_Kernel, alsStore = Some 0, globalKernel = Some 0\<rparr>"
              new_Kernel "snd (new_Kernel init_store)" 0 0]
        getInvokeKernel_precedence
          [of "\<lparr>currentKernelFn = None, alsStore = Some 0, globalKernel = Some 0\<rparr>"
              new_Kernel "snd (new_Kernel init_store)" 0 0]
        getInvokeKernel_precedence
          [of "\<lparr>currentKernelFn = None, alsStore = None, globalKernel = Some 0\<rparr>"
              new_Kernel "snd (new_Kernel init_store)" 0 0]
        getInvokeKernel_precedence
          [of "\<lparr>currentKernelFn = None, alsStore = None, globalKernel = None\<rparr>"
              new_Kernel "snd (new_Kernel init_store)" 0 0]
  by (simp add: new_Kernel_def init_store_def scoped_def)

section \<open>Properties of resolution\<close>

lemma config_caches [simp]: "config (h\<lparr>caches := c\<rparr>) = config h"
  by (rule ext) (simp add: config_def)

lemma config_objects [simp]: "config (h\<lparr>objects := c\<rparr>) = config h"
  by (rule ext) (simp add: config_def)

lemma config_next_object [simp]: "config (h\<lparr>next_object := c\<rparr>) = config h"
  by (rule ext) (simp add: config_def)

lemma config_invokeCache [simp]:
  "config (h\<lparr>kernels := (kernels h)(k := (kernels h k)\<lparr>invokeCache := c\<rparr>)\<rparr>) = config h"
  by (rule ext) (simp add: config_def)





lemma config_instantiate [simp]: "config (snd (instantiate T h)) = config h"
  by (simp add: instantiate_def)












lemma caches_instantiate [simp]: "caches (snd (instantiate T h)) = caches h"
  by (simp add: instantiate_def)








section \<open>Properties of memoization\<close>

lemma memoized_hit:
  "entries s (key args) = Some e \<Longrightarrow> memoized key fn args s = (e, s)"
  by (simp add: memoized_def)

lemma memoized_miss:
  "entries s (key args) = None \<Longrightarrow> memoized key fn args s = fresh key fn args s"
  by (simp add: memoized_def fresh_def)

lemma fresh_stores:
  "entries (snd (fresh key fn args s)) (key args) = Some (fst (fresh key fn args s))"
  "k \<noteq> key args \<Longrightarrow> entries (snd (fresh key fn args s)) k = entries s k"
  "invocations (snd (fresh key fn args s)) = invocations s @ [args]"
  "settled (snd (fresh key fn args s)) = settled s"
  by (simp_all add: fresh_def invoke_def split: returns.splits)

lemma fresh_result:
  "fst (fresh key fn args s) =
     (case fn args of Returns v \<Rightarrow> Value v | ReturnsPending \<Rightarrow> Pending (next_pending s))"
  "next_pending s \<le> next_pending (snd (fresh key fn args s))"
  by (simp_all add: fresh_def invoke_def split: returns.splits)

lemma memoized_entry:
  "entries (snd (memoized key fn a s)) (key a) = Some (fst (memoized key fn a s))"
  by (cases "entries s (key a)") (simp_all add: memoized_hit memoized_miss fresh_stores)

lemma memoized_other:
  "k \<noteq> key a \<Longrightarrow> entries (snd (memoized key fn a s)) k = entries s k"
  by (cases "entries s (key a)") (simp_all add: memoized_hit memoized_miss fresh_stores)

lemma memoized_invocations:
  "invocations (snd (memoized key fn a s))
     = invocations s @ (if entries s (key a) = None then [a] else [])"
  by (cases "entries s (key a)") (simp_all add: memoized_hit memoized_miss fresh_stores)

lemma settle_invocations: "invocations (settle p out s) = invocations s"
  by (cases out) (simp_all add: settle_def)

lemma settle_Fulfilled_entries: "entries (settle p (Fulfilled v) s) = entries s"
  by (simp add: settle_def)

lemma settle_entries_other:
  "entries s k \<noteq> Some (Pending p) \<Longrightarrow> entries (settle p out s) k = entries s k"
  by (cases out) (simp_all add: settle_def)

text \<open>
  Claim C4, as stated, says that every two calls with equal argument keys invoke the wrapped
  function exactly once. When the pending result of the first call fails between the two
  calls, its entry is removed and the second call invokes the wrapped function again: two
  invocations. When the key has been primed before the two calls, neither call invokes it:
  no invocation.
\<close>

theorem memoized_pair_not_once:
  "invocations (snd (memoized id (\<lambda>_. ReturnsPending) ''1''
      (settle 0 (Rejected ''down'')
         (snd (memoized id (\<lambda>_. ReturnsPending :: nat returns) ''1'' new_memo)))))
     = [''1'', ''1'']
   \<and> invocations (snd (memoized id (\<lambda>_. ReturnsPending) ''1''
      (snd (memoized id (\<lambda>_. ReturnsPending :: nat returns) ''1''
         (prime_value id ''1'' (Value 7) new_memo)))))
     = []"
  by (simp add: new_memo_def memoized_def invoke_def settle_def prime_value_def)

text \<open>
  Claim C4, amended: of two calls with equal argument keys between which the entry stored
  under the key is not removed or replaced (they follow each other directly, or pending
  results settle in between without the stored one failing; not a failure of the stored
  pending result, a bust or a fresh), the second returns the stored entry, the same pending
  result when it is still pending, without an invocation and without a change. The two
  calls invoke the wrapped function exactly once, with the arguments of the first call,
  when the key had no entry before the first call, and not at all when it had one. Two
  calls with distinct argument keys invoke it once for each key that had no entry. After a
  call that found no entry, the entry is stored under the key while the pending result has
  not settled.
\<close>

theorem memoized_pair_of_calls:
  "(key b = key a
      \<and> entries mid (key a) = entries (snd (memoized key fn a s)) (key a) \<longrightarrow>
      memoized key fn b mid = (fst (memoized key fn a s), mid))
   \<and> (key b \<noteq> key a
      \<and> entries mid (key b) = entries (snd (memoized key fn a s)) (key b) \<longrightarrow>
      invocations (snd (memoized key fn b mid))
        = invocations mid @ (if entries s (key b) = None then [b] else []))
   \<and> invocations (snd (memoized key fn a s))
        = invocations s @ (if entries s (key a) = None then [a] else [])
   \<and> entries (settle p (Fulfilled v) (snd (memoized key fn a s)))
        = entries (snd (memoized key fn a s))
   \<and> invocations (settle p out (snd (memoized key fn a s)))
        = invocations (snd (memoized key fn a s))
   \<and> (fst (memoized key fn a s) \<noteq> Pending p \<longrightarrow>
        entries (settle p out (snd (memoized key fn a s))) (key a)
          = entries (snd (memoized key fn a s)) (key a))
   \<and> entries (snd (memoized key fn a s)) (key a) = Some (fst (memoized key fn a s))
   \<and> (entries s (key a) = None \<longrightarrow>
      settled (snd (memoized key fn a s)) = settled s
      \<and> (fn a = ReturnsPending \<and> settled s (next_pending s) = None \<longrightarrow>
            fst (memoized key fn a s) = Pending (next_pending s)
            \<and> observed (snd (memoized key fn a s)) (fst (memoized key fn a s)) = None))"
proof (intro conjI impI)
  let ?s1 = "snd (memoized key fn a s)"
  assume h: "key b = key a \<and> entries mid (key a) = entries ?s1 (key a)"
  then have "entries mid (key b) = Some (fst (memoized key fn a s))"
    by (simp add: memoized_entry)
  then show "memoized key fn b mid = (fst (memoized key fn a s), mid)"
    by (rule memoized_hit)
next
  let ?s1 = "snd (memoized key fn a s)"
  assume h: "key b \<noteq> key a \<and> entries mid (key b) = entries ?s1 (key b)"
  then have "entries mid (key b) = entries s (key b)"
    by (simp add: memoized_other)
  then show "invocations (snd (memoized key fn b mid))
        = invocations mid @ (if entries s (key b) = None then [b] else [])"
    by (simp add: memoized_invocations)
next
  show "invocations (snd (memoized key fn a s))
        = invocations s @ (if entries s (key a) = None then [a] else [])"
    by (rule memoized_invocations)
next
  show "entries (settle p (Fulfilled v) (snd (memoized key fn a s)))
        = entries (snd (memoized key fn a s))"
    by (rule settle_Fulfilled_entries)
next
  show "invocations (settle p out (snd (memoized key fn a s)))
        = invocations (snd (memoized key fn a s))"
    by (rule settle_invocations)
next
  assume "fst (memoized key fn a s) \<noteq> Pending p"
  then have "entries (snd (memoized key fn a s)) (key a) \<noteq> Some (Pending p)"
    by (simp add: memoized_entry)
  then show "entries (settle p out (snd (memoized key fn a s))) (key a)
          = entries (snd (memoized key fn a s)) (key a)"
    by (rule settle_entries_other)
next
  show "entries (snd (memoized key fn a s)) (key a) = Some (fst (memoized key fn a s))"
    by (rule memoized_entry)
next
  assume h: "entries s (key a) = None"
  then show "settled (snd (memoized key fn a s)) = settled s"
    by (simp add: memoized_miss fresh_stores)
  assume p: "fn a = ReturnsPending \<and> settled s (next_pending s) = None"
  with h show r: "fst (memoized key fn a s) = Pending (next_pending s)"
    by (simp add: memoized_miss fresh_result)
  from h p show "observed (snd (memoized key fn a s)) (fst (memoized key fn a s)) = None"
    unfolding r by (simp add: observed_def memoized_miss fresh_stores)
qed

theorem memoized_pair_of_calls_witness:
  "memoized id (\<lambda>_. ReturnsPending) ''1''
      (snd (memoized id (\<lambda>_. ReturnsPending :: nat returns) ''1'' new_memo))
     = (Pending 0, snd (memoized id (\<lambda>_. ReturnsPending :: nat returns) ''1'' new_memo))
   \<and> invocations (snd (memoized id (\<lambda>_. ReturnsPending :: nat returns) ''1'' new_memo))
     = [''1'']
   \<and> observed (snd (memoized id (\<lambda>_. ReturnsPending) ''1'' new_memo))
        (Pending 0 :: nat result) = None
   \<and> fst (memoized id (\<lambda>_. ReturnsPending) ''1''
        (settle 0 (Fulfilled 7)
           (snd (memoized id (\<lambda>_. ReturnsPending :: nat returns) ''1'' new_memo))))
     = Pending 0
   \<and> invocations (snd (memoized id (\<lambda>_. ReturnsPending) ''1''
        (settle 0 (Fulfilled 7)
           (snd (memoized id (\<lambda>_. ReturnsPending :: nat returns) ''1'' new_memo)))))
     = [''1'']
   \<and> invocations (snd (memoized id (\<lambda>_. ReturnsPending) ''2''
        (settle 0 (Fulfilled 7)
           (snd (memoized id (\<lambda>_. ReturnsPending :: nat returns) ''1'' new_memo)))))
     = [''1'', ''2'']"
  using memoized_pair_of_calls
          [where key = id and a = "''1''" and b = "''1''"
             and fn = "\<lambda>_. ReturnsPending :: nat returns"
             and s = "new_memo :: (string, string, nat) memo"
             and mid = "snd (memoized id (\<lambda>_. ReturnsPending :: nat returns) ''1'' new_memo)"
             and p = 0 and v = 7 and out = "Fulfilled 7"]
        memoized_pair_of_calls
          [where key = id and a = "''1''" and b = "''1''"
             and fn = "\<lambda>_. ReturnsPending :: nat returns"
             and s = "new_memo :: (string, string, nat) memo"
             and mid = "settle 0 (Fulfilled 7)
                (snd (memoized id (\<lambda>_. ReturnsPending :: nat returns) ''1'' new_memo))"
             and p = 0 and v = 7 and out = "Fulfilled 7"]
        memoized_pair_of_calls
          [where key = id and a = "''1''" and b = "''2''"
             and fn = "\<lambda>_. ReturnsPending :: nat returns"
             and s = "new_memo :: (string, string, nat) memo"
             and mid = "settle 0 (Fulfilled 7)
                (snd (memoized id (\<lambda>_. ReturnsPending :: nat returns) ''1'' new_memo))"
             and p = 0 and v = 7 and out = "Fulfilled 7"]
  by (simp add: new_memo_def memoized_def invoke_def observed_def settle_def)

lemma settle_rejected:
  assumes "p < next_pending s" and "settled s p = None"
  shows "entries (settle p (Rejected e) s) k
           = (if entries s k = Some (Pending p) then None else entries s k)"
    and "settled (settle p (Rejected e) s) p = Some (Rejected e)"
    and "invocations (settle p (Rejected e) s) = invocations s"
  using assms by (simp_all add: settle_def)

lemma settle_fulfilled:
  assumes "p < next_pending s" and "settled s p = None"
  shows "entries (settle p (Fulfilled v) s) = entries s"
    and "settled (settle p (Fulfilled v) s) p = Some (Fulfilled v)"
    and "invocations (settle p (Fulfilled v) s) = invocations s"
  using assms by (simp_all add: settle_def)

text \<open>
  Claim C6: whenever a pending result is stored under a key (by a memoized call, by fresh,
  or by prime(args).value(v)) and it fails, the entry of that key is removed, the holder of
  the pending result sees the failure, no other entry is touched, and the next memoized call
  with that key invokes the wrapped function again. When it settles with a value the entry
  stays and the next call returns it without an invocation.
\<close>

theorem failed_entry_evicted:
  "(entries s k = Some (Pending p) \<and> p < next_pending s \<and> settled s p = None \<longrightarrow>
      entries (settle p (Rejected e) s) k = None
      \<and> observed (settle p (Rejected e) s) (Pending p) = Some (Rejected e)
      \<and> (key a = k \<longrightarrow>
           memoized key fn a (settle p (Rejected e) s) = fresh key fn a (settle p (Rejected e) s)
           \<and> invocations (snd (memoized key fn a (settle p (Rejected e) s)))
               = invocations s @ [a])
      \<and> (\<forall>k'. entries s k' \<noteq> Some (Pending p) \<longrightarrow>
             entries (settle p (Rejected e) s) k' = entries s k')
      \<and> entries (settle p (Fulfilled v) s) k = Some (Pending p)
      \<and> observed (settle p (Fulfilled v) s) (Pending p) = Some (Fulfilled v)
      \<and> (key a = k \<longrightarrow>
           memoized key fn a (settle p (Fulfilled v) s)
             = (Pending p, settle p (Fulfilled v) s)))
   \<and> (entries s (key a) = None \<and> fn a = ReturnsPending \<longrightarrow>
        fst (memoized key fn a s) = Pending (next_pending s)
        \<and> entries (snd (memoized key fn a s)) (key a) = Some (Pending (next_pending s))
        \<and> next_pending s < next_pending (snd (memoized key fn a s)))
   \<and> (fn a = ReturnsPending \<longrightarrow>
        fst (fresh key fn a s) = Pending (next_pending s)
        \<and> entries (snd (fresh key fn a s)) (key a) = Some (Pending (next_pending s))
        \<and> next_pending s < next_pending (snd (fresh key fn a s)))
   \<and> entries (prime_value key a r s) (key a) = Some r"
proof (intro conjI impI allI)
  assume h: "entries s k = Some (Pending p) \<and> p < next_pending s \<and> settled s p = None"
  then have p: "p < next_pending s" "settled s p = None" by simp_all
  let ?r = "settle p (Rejected e) s"
  let ?f = "settle p (Fulfilled v) s"
  from h show gone: "entries ?r k = None"
    by (simp add: settle_rejected [OF p])
  show "observed ?r (Pending p) = Some (Rejected e)"
    by (simp add: observed_def settle_rejected [OF p])
  show kept: "entries ?f k = Some (Pending p)"
    using h by (simp add: settle_fulfilled [OF p])
  show "observed ?f (Pending p) = Some (Fulfilled v)"
    by (simp add: observed_def settle_fulfilled [OF p])
  show "entries ?r k' = entries s k'" if "entries s k' \<noteq> Some (Pending p)" for k'
    using that by (simp add: settle_rejected [OF p])
  {
    assume k: "key a = k"
    with gone show again: "memoized key fn a ?r = fresh key fn a ?r"
      by (simp add: memoized_miss)
    show "invocations (snd (memoized key fn a ?r)) = invocations s @ [a]"
      by (simp add: again fresh_stores settle_rejected [OF p])
    from k kept show "memoized key fn a ?f = (Pending p, ?f)"
      by (simp add: memoized_hit)
  }
next
  assume h: "entries s (key a) = None \<and> fn a = ReturnsPending"
  then show "fst (memoized key fn a s) = Pending (next_pending s)"
    and "entries (snd (memoized key fn a s)) (key a) = Some (Pending (next_pending s))"
    and "next_pending s < next_pending (snd (memoized key fn a s))"
    by (simp_all add: memoized_def invoke_def)
next
  assume h: "fn a = ReturnsPending"
  then show "fst (fresh key fn a s) = Pending (next_pending s)"
    and "entries (snd (fresh key fn a s)) (key a) = Some (Pending (next_pending s))"
    and "next_pending s < next_pending (snd (fresh key fn a s))"
    by (simp_all add: fresh_def invoke_def)
next
  show "entries (prime_value key a r s) (key a) = Some r"
    by (simp add: prime_value_def)
qed

theorem failed_entry_evicted_witness:
  "entries (snd (memoized id (\<lambda>_. ReturnsPending) ''1'' new_memo)) ''1''
     = Some (Pending 0 :: nat result)
   \<and> entries (settle 0 (Rejected ''down'')
        (snd (memoized id (\<lambda>_. ReturnsPending :: nat returns) ''1'' new_memo))) ''1'' = None
   \<and> observed (settle 0 (Rejected ''down'')
        (snd (memoized id (\<lambda>_. ReturnsPending :: nat returns) ''1'' new_memo))) (Pending 0)
       = Some (Rejected ''down'')
   \<and> invocations (snd (memoized id (\<lambda>_. ReturnsPending) ''1''
        (settle 0 (Rejected ''down'')
           (snd (memoized id (\<lambda>_. ReturnsPending :: nat returns) ''1'' new_memo)))))
       = [''1'', ''1'']
   \<and> entries (settle 0 (Fulfilled 7)
        (snd (memoized id (\<lambda>_. ReturnsPending :: nat returns) ''1'' new_memo))) ''1''
       = Some (Pending 0)
   \<and> invocations (snd (memoized id (\<lambda>_. ReturnsPending) ''1''
        (settle 0 (Fulfilled 7)
           (snd (memoized id (\<lambda>_. ReturnsPending :: nat returns) ''1'' new_memo)))))
       = [''1'']"
  using failed_entry_evicted
          [of "snd (memoized id (\<lambda>_. ReturnsPending :: nat returns) ''1'' new_memo)"
              "''1''" 0 "''down''" id "''1''" "\<lambda>_. ReturnsPending" 7]
  by (simp add: new_memo_def memoized_def fresh_def invoke_def observed_def settle_def)

subsection \<open>Properties of argument keys\<close>

lemma canonical_property_eq: "(\<lambda>(k, v). (k, canonical v)) = canonical_property"
  by (simp add: fun_eq_iff canonical_property_def)

lemma canonical_Keyed [simp]:
  "canonical (Keyed ps) = Keyed (sort_key fst (map canonical_property ps))"
  by (simp add: canonical_property_eq)

declare canonical.simps(3) [simp del]

lemma fst_canonical_property [simp]: "fst (canonical_property p) = fst p"
  by (simp add: canonical_property_def)

lemma sort_key_fst_mset:
  assumes "mset xs = mset ys" and "distinct (map fst xs)"
  shows "sort_key fst xs = sort_key fst ys"
proof (rule sort_key_inj_key_eq)
  show "mset xs = mset (sort_key fst ys)" using assms(1) by simp
  show "inj_on fst (set xs)" using assms(2) by (simp add: distinct_map)
  show "sorted (map fst (sort_key fst ys))" by simp
qed

lemma well_formed_Keyed_snd:
  "well_formed (Keyed ps) \<Longrightarrow> p \<in> set ps \<Longrightarrow> well_formed (snd p)"
  by (auto simp add: list_all_iff)

lemma reordered_canonical:
  "reordered a b \<Longrightarrow> well_formed a \<Longrightarrow> well_formed b \<Longrightarrow> canonical a = canonical b"
proof (induction rule: reordered.induct)
  case (same_scalar x)
  show ?case by simp
next
  case (listed xs ys)
  from listed.IH listed.prems have "map canonical xs = map canonical ys"
    by (induction xs ys rule: list_all2_induct) simp_all
  then show ?case by simp
next
  case (keyed ps qs' qs)
  have set_eq: "set qs' = set qs" using keyed.hyps by (rule mset_eq_setD)
  have wf_qs': "well_formed (snd q)" if "q \<in> set qs'" for q
    using that set_eq keyed.prems(2) well_formed_Keyed_snd by blast
  have wf_ps: "well_formed (snd p)" if "p \<in> set ps" for p
    using that keyed.prems(1) well_formed_Keyed_snd by blast
  from keyed.IH wf_ps wf_qs'
  have same: "map canonical_property ps = map canonical_property qs'"
  proof (induction ps qs' rule: list_all2_induct)
    case Nil
    show ?case by simp
  next
    case (Cons p ps q qs)
    then show ?case by (simp add: canonical_property_def)
  qed
  have "mset (map fst qs') = mset (map fst qs)" using keyed.hyps by simp
  then have "distinct (map fst qs') \<longleftrightarrow> distinct (map fst qs)"
    by (rule mset_eq_imp_distinct_iff)
  then have d: "distinct (map fst (map canonical_property qs'))"
    using keyed.prems(2) by (simp add: comp_def)
  have "sort_key fst (map canonical_property qs') = sort_key fst (map canonical_property qs)"
    using d keyed.hyps by (intro sort_key_fst_mset) simp_all
  then show ?case by (simp add: same)
qed

lemma canonical_reordered:
  "canonical a = canonical b \<Longrightarrow> reordered a b"
proof (induction a arbitrary: b)
  case (Scalar x)
  then show ?case by (cases b) (auto intro: reordered.intros)
next
  case (Listed xs)
  from Listed.prems obtain ys where b: "b = Listed ys" and m: "map canonical xs = map canonical ys"
    by (cases b) auto
  from m have "list_all2 (\<lambda>x y. canonical x = canonical y) xs ys"
    by (simp add: list_all2_conv_all_nth list_eq_iff_nth_eq)
  then have "list_all2 reordered xs ys"
    using Listed.IH by (induction xs ys rule: list_all2_induct) simp_all
  then show ?case unfolding b by (rule reordered.listed)
next
  case (Keyed ps)
  from Keyed.prems obtain qs where b: "b = Keyed qs"
    and m: "sort_key fst (map canonical_property ps) = sort_key fst (map canonical_property qs)"
    by (cases b) auto
  from m have "mset (sort_key fst (map canonical_property ps))
      = mset (sort_key fst (map canonical_property qs))" by simp
  then have ms: "mset (map canonical_property ps) = mset (map canonical_property qs)"
    by simp
  have "list_all2 (\<lambda>y q. y = canonical_property q) (map canonical_property qs) qs"
    by (simp add: list_all2_map1 list_all2_same)
  from list_all2_reorder_left_invariance [OF this ms]
  obtain qs' where l: "list_all2 (\<lambda>y q. y = canonical_property q) (map canonical_property ps) qs'"
    and p: "mset qs' = mset qs" by blast
  from l have l': "list_all2 (\<lambda>p q. canonical_property p = canonical_property q) ps qs'"
    by (simp add: list_all2_map1)
  have ih: "canonical (snd p) = canonical c \<Longrightarrow> reordered (snd p) c" if "p \<in> set ps" for p c
    using Keyed.IH [of p "snd p" c] that by (cases p) auto
  from l' ih have "list_all2 (\<lambda>p q. fst p = fst q \<and> reordered (snd p) (snd q)) ps qs'"
  proof (induction ps qs' rule: list_all2_induct)
    case Nil
    show ?case by simp
  next
    case (Cons p ps q qs)
    then show ?case by (simp add: canonical_property_def)
  qed
  then show ?case unfolding b using p by (rule reordered.keyed)
qed


inductive_cases reordered_Scalar_leftE: "reordered (Scalar x) b"

inductive_cases reordered_Scalar_rightE: "reordered a (Scalar x)"

lemma argKey_OwnValue_iff: "argKey args = OwnValue x \<longleftrightarrow> args = [Scalar x]"
  by (cases args rule: argKey.cases) auto

lemma argKey_Serialized:
  "(\<And>x. args \<noteq> [Scalar x]) \<Longrightarrow> argKey args = Serialized (map canonical args)"
  by (cases args rule: argKey.cases) auto

lemma argKey_Serialized_iff:
  "argKey args = Serialized cs \<longleftrightarrow> (\<forall>x. args \<noteq> [Scalar x]) \<and> cs = map canonical args"
  by (cases args rule: argKey.cases) auto

lemma map_canonical_reordered:
  "map canonical xs = map canonical ys \<Longrightarrow> list_all2 reordered xs ys"
proof -
  assume "map canonical xs = map canonical ys"
  then have "list_all2 (\<lambda>x y. canonical x = canonical y) xs ys"
    by (simp add: list_all2_conv_all_nth list_eq_iff_nth_eq)
  then show ?thesis
    by (rule list_all2_mono) (rule canonical_reordered)
qed

lemma reordered_map_canonical:
  "list_all2 reordered xs ys \<Longrightarrow> list_all well_formed xs \<Longrightarrow> list_all well_formed ys \<Longrightarrow>
   map canonical xs = map canonical ys"
  by (induction xs ys rule: list_all2_induct) (simp_all add: reordered_canonical)

lemma reordered_single_scalar:
  "list_all2 reordered xs ys \<Longrightarrow> xs = [Scalar x] \<longleftrightarrow> ys = [Scalar x]"
  by (auto simp add: list_all2_Cons1 list_all2_Cons2
        elim: reordered_Scalar_leftE reordered_Scalar_rightE)

text \<open>
  Claim C5: the argument key is a function of the arguments. A single scalar argument has
  its own value as key. Arguments that are the same values up to the order of the
  properties of keyed values have the same key. Arguments with the same key are the same
  values up to that order: different values never share a key.
\<close>

theorem argKey_stable_and_distinguishing:
  "argKey [Scalar x] = OwnValue x
   \<and> (list_all well_formed xs \<and> list_all well_formed ys \<and> list_all2 reordered xs ys
        \<longrightarrow> argKey xs = argKey ys)
   \<and> (argKey xs = argKey ys \<longrightarrow> list_all2 reordered xs ys)"
proof (intro conjI impI)
  show "argKey [Scalar x] = OwnValue x" by simp
next
  assume a: "list_all well_formed xs \<and> list_all well_formed ys \<and> list_all2 reordered xs ys"
  show "argKey xs = argKey ys"
  proof (cases "\<exists>x. xs = [Scalar x]")
    case True
    then obtain x where "xs = [Scalar x]" by blast
    moreover from this a have "ys = [Scalar x]"
      using reordered_single_scalar by blast
    ultimately show ?thesis by simp
  next
    case False
    with a have "\<nexists>x. ys = [Scalar x]"
      using reordered_single_scalar by blast
    with False a show ?thesis
      by (simp add: argKey_Serialized reordered_map_canonical)
  qed
next
  assume e: "argKey xs = argKey ys"
  show "list_all2 reordered xs ys"
  proof (cases "argKey xs")
    case (OwnValue x)
    with e have "argKey xs = OwnValue x" "argKey ys = OwnValue x" by simp_all
    then have "xs = [Scalar x]" "ys = [Scalar x]"
      by (simp_all only: argKey_OwnValue_iff)
    then show ?thesis by (simp add: reordered.same_scalar)
  next
    case (Serialized cs)
    with e have "argKey xs = Serialized cs" "argKey ys = Serialized cs" by simp_all
    then have "map canonical xs = map canonical ys"
      by (simp only: argKey_Serialized_iff)
    then show ?thesis by (rule map_canonical_reordered)
  qed
qed

theorem argKey_stable_and_distinguishing_witness:
  "list_all well_formed [Keyed [(''a'', Scalar (Number 1)), (''b'', Scalar (Number 2))]]
   \<and> list_all well_formed [Keyed [(''b'', Scalar (Number 2)), (''a'', Scalar (Number 1))]]
   \<and> list_all2 reordered
        [Keyed [(''a'', Scalar (Number 1)), (''b'', Scalar (Number 2))]]
        [Keyed [(''b'', Scalar (Number 2)), (''a'', Scalar (Number 1))]]
   \<and> argKey [Keyed [(''a'', Scalar (Number 1)), (''b'', Scalar (Number 2))]]
     = argKey [Keyed [(''b'', Scalar (Number 2)), (''a'', Scalar (Number 1))]]
   \<and> argKey [Scalar (String ''1'')] = OwnValue (String ''1'')"
proof -
  let ?a = "Keyed [(''a'', Scalar (Number 1)), (''b'', Scalar (Number 2))]"
  let ?b = "Keyed [(''b'', Scalar (Number 2)), (''a'', Scalar (Number 1))]"
  have w: "list_all well_formed [?a]" "list_all well_formed [?b]" by simp_all
  have "reordered ?a ?b"
    by (rule reordered.keyed [where qs' = "[(''a'', Scalar (Number 1)), (''b'', Scalar (Number 2))]"])
       (simp_all add: reordered.same_scalar)
  then have r: "list_all2 reordered [?a] [?b]" by simp
  from argKey_stable_and_distinguishing [of "String ''1''" "[?a]" "[?b]"] w r
  show ?thesis by blast
qed

end
